theory Spec2Isabelle
  imports Main "HOL-Library.AList" "HOL-Library.Multiset"
begin

section \<open>The flap damping subprotocol of ringpop\<close>

text \<open>
  A shallow embedding of the damper (\<^verbatim>\<open>Damper\<close>, with its static function
  \<^verbatim>\<open>getMembersToDamp\<close>, its flapper and damped-member bookkeeping and its damp-req
  fan-out) and of the receiving side's damp-req handler.

  Conventions of the embedding:
  \<^item> A member address is a \<open>host:port\<close> string. The JavaScript objects that the
    damper uses as dictionaries (\<^verbatim>\<open>flappers\<close>, \<^verbatim>\<open>dampedMembers\<close>,
    \<^verbatim>\<open>dampScoresByFlapper\<close>) are association lists in insertion order, which is the
    order \<^verbatim>\<open>Object.keys\<close> lists such keys in; a key is looked up among the own
    properties only, as it is for an address.
  \<^item> Numbers are integers (damp scores, r-val, timestamps in milliseconds).
  \<^item> Calls into collaborators (membership, timers, the continuation of a fan-out) are
    recorded in the state, in call order.
\<close>

subsection \<open>Data\<close>

type_synonym address = string

text \<open>One entry of a response's \<^verbatim>\<open>scores\<close> array: \<^verbatim>\<open>{member, dampScore}\<close>.\<close>

record score =
  member :: address
  dampScore :: int

type_synonym change = string

text \<open>
  A damp-req response. \<^verbatim>\<open>scores\<close> and \<^verbatim>\<open>changes\<close> are \<open>None\<close> when the field
  is not an array (\<^verbatim>\<open>Array.isArray\<close> is false); \<^verbatim>\<open>dampReqAddr\<close> is set by the
  fan-out when it records the response.
\<close>

record dampReqResponse =
  scores :: "score list option"
  changes :: "change list option"
  dampReqAddr :: "address option"

text \<open>The configuration keys the damper reads.\<close>

record config =
  dampScoringSuppressLimit :: int
  dampScoringSuppressDuration :: int

subsection \<open>Scoring and decision: \<^verbatim>\<open>Damper.getMembersToDamp\<close>\<close>

text \<open>
  The body of the inner loop: \<^verbatim>\<open>scores = dampScoresByFlapper[member] || []\<close>,
  \<^verbatim>\<open>scores.push(responseScore)\<close>, \<^verbatim>\<open>dampScoresByFlapper[member] = scores\<close>.
\<close>

definition groupScore ::
  "(address \<times> score list) list \<Rightarrow> score \<Rightarrow> (address \<times> score list) list" where
  "groupScore byFlapper responseScore =
     (let scores = (case map_of byFlapper (member responseScore) of
                      None \<Rightarrow> [] | Some ss \<Rightarrow> ss)
      in AList.update (member responseScore) (scores @ [responseScore]) byFlapper)"

text \<open>The body of the outer loop: a response whose scores are not an array is skipped.\<close>

definition groupResponse ::
  "(address \<times> score list) list \<Rightarrow> dampReqResponse \<Rightarrow> (address \<times> score list) list" where
  "groupResponse byFlapper dampReqResponse =
     (case scores dampReqResponse of
        None \<Rightarrow> byFlapper
      | Some responseScores \<Rightarrow> foldl groupScore byFlapper responseScores)"

definition dampScoresByFlapper :: "dampReqResponse list \<Rightarrow> (address \<times> score list) list" where
  "dampScoresByFlapper allResponses = foldl groupResponse [] allResponses"

definition scoresExceedSuppressLimit :: "config \<Rightarrow> score list \<Rightarrow> bool" where
  "scoresExceedSuppressLimit cfg ss =
     list_all (\<lambda>s. dampScoringSuppressLimit cfg \<le> dampScore s) ss"

definition getMembersToDamp :: "dampReqResponse list \<Rightarrow> int \<Rightarrow> config \<Rightarrow> address list" where
  "getMembersToDamp allResponses rVal cfg =
     map fst (filter (\<lambda>(m, ss). rVal \<le> int (length ss) \<and> scoresExceedSuppressLimit cfg ss)
                     (dampScoresByFlapper allResponses))"

text \<open>
  The specification's reading of the grouping, used to state the decision rule: the score
  tuples of all responses, in arrival order, and those among them about one address.
\<close>

definition responseTuples :: "dampReqResponse \<Rightarrow> score list" where
  "responseTuples r = (case scores r of None \<Rightarrow> [] | Some ss \<Rightarrow> ss)"

definition tuplesFor :: "address \<Rightarrow> dampReqResponse list \<Rightarrow> score list" where
  "tuplesFor a rs = filter (\<lambda>s. member s = a) (concat (map responseTuples rs))"

text \<open>The observers that reported on an address: the responses with a tuple about it.\<close>

definition reportersOn :: "address \<Rightarrow> dampReqResponse list \<Rightarrow> dampReqResponse list" where
  "reportersOn a rs = filter (\<lambda>r. \<exists>s \<in> set (responseTuples r). member s = a) rs"

subsection \<open>The grouping loop\<close>

lemma groupScore_keys_distinct:
  "distinct (map fst d) \<Longrightarrow> distinct (map fst (groupScore d s))"
  by (simp add: groupScore_def Let_def distinct_update)

lemma groupScore_lookup:
  "map_of (groupScore d s) a =
     (if member s = a
      then Some ((case map_of d a of None \<Rightarrow> [] | Some ss \<Rightarrow> ss) @ [s])
      else map_of d a)"
  by (auto simp: groupScore_def Let_def update_conv')

lemma foldl_groupScore_keys_distinct:
  "distinct (map fst d) \<Longrightarrow> distinct (map fst (foldl groupScore d ss))"
  by (induction ss arbitrary: d) (simp_all add: groupScore_keys_distinct)

lemma foldl_groupScore_lookup:
  "map_of (foldl groupScore d ss) a =
     (if filter (\<lambda>s. member s = a) ss = [] then map_of d a
      else Some ((case map_of d a of None \<Rightarrow> [] | Some xs \<Rightarrow> xs) @ filter (\<lambda>s. member s = a) ss))"
proof (induction ss arbitrary: d)
  case Nil
  show ?case by simp
next
  case (Cons s ss)
  show ?case
    by (simp add: Cons.IH groupScore_lookup)
qed

lemma groupResponse_keys_distinct:
  "distinct (map fst d) \<Longrightarrow> distinct (map fst (groupResponse d r))"
  by (simp add: groupResponse_def foldl_groupScore_keys_distinct split: option.splits)

lemma groupResponse_lookup:
  "map_of (groupResponse d r) a =
     (if filter (\<lambda>s. member s = a) (responseTuples r) = [] then map_of d a
      else Some ((case map_of d a of None \<Rightarrow> [] | Some xs \<Rightarrow> xs)
                 @ filter (\<lambda>s. member s = a) (responseTuples r)))"
  by (simp add: groupResponse_def responseTuples_def foldl_groupScore_lookup
           split: option.splits)

lemma foldl_groupResponse_keys_distinct:
  "distinct (map fst d) \<Longrightarrow> distinct (map fst (foldl groupResponse d rs))"
  by (induction rs arbitrary: d) (simp_all add: groupResponse_keys_distinct)

lemma foldl_groupResponse_lookup:
  "map_of (foldl groupResponse d rs) a =
     (if tuplesFor a rs = [] then map_of d a
      else Some ((case map_of d a of None \<Rightarrow> [] | Some xs \<Rightarrow> xs) @ tuplesFor a rs))"
proof (induction rs arbitrary: d)
  case Nil
  show ?case by (simp add: tuplesFor_def)
next
  case (Cons r rs)
  show ?case
    by (simp add: Cons.IH groupResponse_lookup tuplesFor_def)
qed

lemma dampScoresByFlapper_keys_distinct:
  "distinct (map fst (dampScoresByFlapper rs))"
  by (simp add: dampScoresByFlapper_def foldl_groupResponse_keys_distinct)

lemma dampScoresByFlapper_lookup:
  "map_of (dampScoresByFlapper rs) a =
     (if tuplesFor a rs = [] then None else Some (tuplesFor a rs))"
  by (simp add: dampScoresByFlapper_def foldl_groupResponse_lookup)

lemma getMembersToDamp_iff:
  "a \<in> set (getMembersToDamp rs rVal cfg) \<longleftrightarrow>
     tuplesFor a rs \<noteq> [] \<and> rVal \<le> int (length (tuplesFor a rs)) \<and>
     list_all (\<lambda>s. dampScoringSuppressLimit cfg \<le> dampScore s) (tuplesFor a rs)"
proof -
  have "a \<in> set (getMembersToDamp rs rVal cfg) \<longleftrightarrow>
        (\<exists>ss. (a, ss) \<in> set (dampScoresByFlapper rs) \<and> rVal \<le> int (length ss) \<and>
              scoresExceedSuppressLimit cfg ss)"
    by (force simp: getMembersToDamp_def)
  also have "\<dots> \<longleftrightarrow> (\<exists>ss. map_of (dampScoresByFlapper rs) a = Some ss \<and>
               rVal \<le> int (length ss) \<and> scoresExceedSuppressLimit cfg ss)"
    using dampScoresByFlapper_keys_distinct [of rs] by (auto dest: map_of_SomeD)
  also have "\<dots> \<longleftrightarrow> tuplesFor a rs \<noteq> [] \<and> rVal \<le> int (length (tuplesFor a rs)) \<and>
               list_all (\<lambda>s. dampScoringSuppressLimit cfg \<le> dampScore s) (tuplesFor a rs)"
    by (auto simp: dampScoresByFlapper_lookup scoresExceedSuppressLimit_def)
  finally show ?thesis .
qed

lemma getMembersToDamp_skips_non_array:
  "scores r = None \<Longrightarrow>
     getMembersToDamp (xs @ r # ys) rVal cfg = getMembersToDamp (xs @ ys) rVal cfg"
  by (simp add: getMembersToDamp_def dampScoresByFlapper_def groupResponse_def)

lemma mset_tuplesFor:
  "mset (tuplesFor a rs) =
     filter_mset (\<lambda>s. member s = a) (\<Sum>r \<in># mset rs. mset (responseTuples r))"
proof -
  have "mset (concat (map responseTuples rs)) = (\<Sum>r \<in># mset rs. mset (responseTuples r))"
    by (induction rs) simp_all
  then show ?thesis
    by (simp add: tuplesFor_def)
qed

lemma tuplesFor_permuted:
  assumes "mset rs = mset rs'"
  shows "mset (tuplesFor a rs) = mset (tuplesFor a rs')"
  by (simp add: mset_tuplesFor assms)

subsection \<open>Claims about \<^verbatim>\<open>getMembersToDamp\<close>\<close>

text \<open>
  C1. For every list of responses, every quorum size \<open>rVal\<close> and every suppress
  limit, \<^verbatim>\<open>getMembersToDamp\<close> returns a member address if and only if there are score
  tuples grouped under that address, they number at least \<open>rVal\<close>, and every one of
  their scores is at or above the suppress limit. For a quorum size of at least one, as
  the configuration and the subprotocol have it, that is: if and only if the tuples
  about the address number at least \<open>rVal\<close> and each score is at or above the limit.
  A response whose \<^verbatim>\<open>scores\<close> field is not an array contributes no tuples: dropping it
  from the list does not change the result.
\<close>

theorem getMembersToDamp_decision:
  "(a \<in> set (getMembersToDamp rs rVal cfg) \<longleftrightarrow>
      tuplesFor a rs \<noteq> [] \<and>
      rVal \<le> int (length (tuplesFor a rs)) \<and>
      (\<forall>s \<in> set (tuplesFor a rs). dampScoringSuppressLimit cfg \<le> dampScore s))
   \<and> (1 \<le> rVal \<longrightarrow>
      (a \<in> set (getMembersToDamp rs rVal cfg) \<longleftrightarrow>
         rVal \<le> int (length (tuplesFor a rs)) \<and>
         (\<forall>s \<in> set (tuplesFor a rs). dampScoringSuppressLimit cfg \<le> dampScore s)))
   \<and> (scores r = None \<longrightarrow>
         responseTuples r = [] \<and>
         getMembersToDamp (xs @ r # ys) rVal cfg = getMembersToDamp (xs @ ys) rVal cfg)"
proof (intro conjI impI)
  show g: "a \<in> set (getMembersToDamp rs rVal cfg) \<longleftrightarrow>
      tuplesFor a rs \<noteq> [] \<and>
      rVal \<le> int (length (tuplesFor a rs)) \<and>
      (\<forall>s \<in> set (tuplesFor a rs). dampScoringSuppressLimit cfg \<le> dampScore s)"
    unfolding getMembersToDamp_iff list_all_iff by (rule refl)
  assume r: "1 \<le> rVal"
  have "rVal \<le> int (length (tuplesFor a rs)) \<Longrightarrow> tuplesFor a rs \<noteq> []"
    using r by auto
  then show "a \<in> set (getMembersToDamp rs rVal cfg) \<longleftrightarrow>
         rVal \<le> int (length (tuplesFor a rs)) \<and>
         (\<forall>s \<in> set (tuplesFor a rs). dampScoringSuppressLimit cfg \<le> dampScore s)"
    unfolding g by blast
next
  assume "scores r = None"
  then show "responseTuples r = []"
    by (simp add: responseTuples_def)
next
  assume "scores r = None"
  then show "getMembersToDamp (xs @ r # ys) rVal cfg = getMembersToDamp (xs @ ys) rVal cfg"
    by (rule getMembersToDamp_skips_non_array)
qed

text \<open>
  The decision rule at the responses of three observers that all score \<open>x\<close> above a
  limit of 100, with a fourth response whose scores are not an array.
\<close>

theorem getMembersToDamp_decision_witness:
  "(1::int) \<le> 2
   \<and> ''x'' \<in> set (getMembersToDamp
        [\<lparr>scores = Some [\<lparr>member = ''x'', dampScore = 150\<rparr>], changes = None, dampReqAddr = Some ''a''\<rparr>,
         \<lparr>scores = Some [\<lparr>member = ''x'', dampScore = 200\<rparr>], changes = None, dampReqAddr = Some ''b''\<rparr>,
         \<lparr>scores = Some [\<lparr>member = ''x'', dampScore = 120\<rparr>], changes = None, dampReqAddr = Some ''c''\<rparr>]
        2 \<lparr>dampScoringSuppressLimit = 100, dampScoringSuppressDuration = 1000\<rparr>)
   \<and> scores \<lparr>scores = None, changes = None, dampReqAddr = Some ''d''\<rparr> = None
   \<and> getMembersToDamp
        ([] @ \<lparr>scores = None, changes = None, dampReqAddr = Some ''d''\<rparr> # [])
        2 \<lparr>dampScoringSuppressLimit = 100, dampScoringSuppressDuration = 1000\<rparr>
      = getMembersToDamp ([] @ [])
        2 \<lparr>dampScoringSuppressLimit = 100, dampScoringSuppressDuration = 1000\<rparr>"
  using getMembersToDamp_decision [of "''x''"
      "[\<lparr>scores = Some [\<lparr>member = ''x'', dampScore = 150\<rparr>], changes = None, dampReqAddr = Some ''a''\<rparr>,
        \<lparr>scores = Some [\<lparr>member = ''x'', dampScore = 200\<rparr>], changes = None, dampReqAddr = Some ''b''\<rparr>,
        \<lparr>scores = Some [\<lparr>member = ''x'', dampScore = 120\<rparr>], changes = None, dampReqAddr = Some ''c''\<rparr>]"
      2
      "\<lparr>dampScoringSuppressLimit = 100, dampScoringSuppressDuration = 1000\<rparr>"
      "\<lparr>scores = None, changes = None, dampReqAddr = Some ''d''\<rparr>" "[]" "[]"]
  by (simp add: tuplesFor_def responseTuples_def)

text \<open>
  C7. For two response lists that are permutations of each other, and for every \<open>rVal\<close>
  and suppress limit, \<^verbatim>\<open>getMembersToDamp\<close> returns the same set of member addresses.
\<close>

theorem getMembersToDamp_permutation:
  "mset rs = mset rs' \<Longrightarrow>
     set (getMembersToDamp rs rVal cfg) = set (getMembersToDamp rs' rVal cfg)"
proof (rule set_eqI)
  fix a
  assume "mset rs = mset rs'"
  then have m: "mset (tuplesFor a rs) = mset (tuplesFor a rs')"
    by (rule tuplesFor_permuted)
  have "tuplesFor a rs = [] \<longleftrightarrow> tuplesFor a rs' = []"
    using m by (metis mset_zero_iff)
  moreover have "length (tuplesFor a rs) = length (tuplesFor a rs')"
    using m by (rule mset_eq_length)
  moreover have "set (tuplesFor a rs) = set (tuplesFor a rs')"
    using m by (rule mset_eq_setD)
  ultimately show "a \<in> set (getMembersToDamp rs rVal cfg) \<longleftrightarrow>
                   a \<in> set (getMembersToDamp rs' rVal cfg)"
    by (simp add: getMembersToDamp_iff list_all_iff)
qed

text \<open>Two responses in either arrival order: the same member is chosen.\<close>

theorem getMembersToDamp_permutation_witness:
  "mset [\<lparr>scores = Some [\<lparr>member = ''x'', dampScore = 150\<rparr>], changes = None, dampReqAddr = Some ''a''\<rparr>,
         \<lparr>scores = Some [\<lparr>member = ''y'', dampScore = 20\<rparr>, \<lparr>member = ''x'', dampScore = 200\<rparr>],
          changes = None, dampReqAddr = Some ''b''\<rparr>]
   = mset [\<lparr>scores = Some [\<lparr>member = ''y'', dampScore = 20\<rparr>, \<lparr>member = ''x'', dampScore = 200\<rparr>],
          changes = None, dampReqAddr = Some ''b''\<rparr>,
         \<lparr>scores = Some [\<lparr>member = ''x'', dampScore = 150\<rparr>], changes = None, dampReqAddr = Some ''a''\<rparr>]
   \<and> set (getMembersToDamp
        [\<lparr>scores = Some [\<lparr>member = ''x'', dampScore = 150\<rparr>], changes = None, dampReqAddr = Some ''a''\<rparr>,
         \<lparr>scores = Some [\<lparr>member = ''y'', dampScore = 20\<rparr>, \<lparr>member = ''x'', dampScore = 200\<rparr>],
          changes = None, dampReqAddr = Some ''b''\<rparr>]
        2 \<lparr>dampScoringSuppressLimit = 100, dampScoringSuppressDuration = 1000\<rparr>)
   = set (getMembersToDamp
        [\<lparr>scores = Some [\<lparr>member = ''y'', dampScore = 20\<rparr>, \<lparr>member = ''x'', dampScore = 200\<rparr>],
          changes = None, dampReqAddr = Some ''b''\<rparr>,
         \<lparr>scores = Some [\<lparr>member = ''x'', dampScore = 150\<rparr>], changes = None, dampReqAddr = Some ''a''\<rparr>]
        2 \<lparr>dampScoringSuppressLimit = 100, dampScoringSuppressDuration = 1000\<rparr>)
   \<and> getMembersToDamp
        [\<lparr>scores = Some [\<lparr>member = ''x'', dampScore = 150\<rparr>], changes = None, dampReqAddr = Some ''a''\<rparr>,
         \<lparr>scores = Some [\<lparr>member = ''y'', dampScore = 20\<rparr>, \<lparr>member = ''x'', dampScore = 200\<rparr>],
          changes = None, dampReqAddr = Some ''b''\<rparr>]
        2 \<lparr>dampScoringSuppressLimit = 100, dampScoringSuppressDuration = 1000\<rparr> = [''x'']"
proof -
  have p: "mset [\<lparr>scores = Some [\<lparr>member = ''x'', dampScore = 150\<rparr>], changes = None, dampReqAddr = Some ''a''\<rparr>,
         \<lparr>scores = Some [\<lparr>member = ''y'', dampScore = 20\<rparr>, \<lparr>member = ''x'', dampScore = 200\<rparr>],
          changes = None, dampReqAddr = Some ''b''\<rparr>]
   = mset [\<lparr>scores = Some [\<lparr>member = ''y'', dampScore = 20\<rparr>, \<lparr>member = ''x'', dampScore = 200\<rparr>],
          changes = None, dampReqAddr = Some ''b''\<rparr>,
         \<lparr>scores = Some [\<lparr>member = ''x'', dampScore = 150\<rparr>], changes = None, dampReqAddr = Some ''a''\<rparr>]"
    by (simp add: add_mset_commute)
  have v: "getMembersToDamp
        [\<lparr>scores = Some [\<lparr>member = ''x'', dampScore = 150\<rparr>], changes = None, dampReqAddr = Some ''a''\<rparr>,
         \<lparr>scores = Some [\<lparr>member = ''y'', dampScore = 20\<rparr>, \<lparr>member = ''x'', dampScore = 200\<rparr>],
          changes = None, dampReqAddr = Some ''b''\<rparr>]
        2 \<lparr>dampScoringSuppressLimit = 100, dampScoringSuppressDuration = 1000\<rparr> = [''x'']"
    by (simp add: getMembersToDamp_def dampScoresByFlapper_def groupResponse_def groupScore_def
          scoresExceedSuppressLimit_def)
  show ?thesis
    using p v getMembersToDamp_permutation [OF p, of 2
      "\<lparr>dampScoringSuppressLimit = 100, dampScoringSuppressDuration = 1000\<rparr>"]
    by blast
qed

text \<open>
  C10. \<^verbatim>\<open>getMembersToDamp\<close> counts score tuples, not distinct observers. A single
  response that carries two tuples about \<open>x\<close>, both above the limit, gets \<open>x\<close> damped
  at \<open>rVal = 2\<close>, although only one observer reported on \<open>x\<close>.
\<close>

theorem getMembersToDamp_counts_tuples:
  "getMembersToDamp
     [\<lparr>scores = Some [\<lparr>member = ''x'', dampScore = 150\<rparr>, \<lparr>member = ''x'', dampScore = 150\<rparr>],
       changes = None, dampReqAddr = Some ''a''\<rparr>]
     2 \<lparr>dampScoringSuppressLimit = 100, dampScoringSuppressDuration = 1000\<rparr> = [''x'']
   \<and> int (length (reportersOn ''x''
     [\<lparr>scores = Some [\<lparr>member = ''x'', dampScore = 150\<rparr>, \<lparr>member = ''x'', dampScore = 150\<rparr>],
       changes = None, dampReqAddr = Some ''a''\<rparr>])) < 2"
  by (simp add: getMembersToDamp_def dampScoresByFlapper_def groupResponse_def groupScore_def
        scoresExceedSuppressLimit_def reportersOn_def responseTuples_def)

section \<open>The damper's bookkeeping\<close>

subsection \<open>State\<close>

text \<open>
  A member object of the membership table, with the two properties that the damper and
  the damp-req handler read: \<^verbatim>\<open>address\<close> and \<^verbatim>\<open>dampScore\<close> (written
  \<open>memberDampScore\<close>, \<open>dampScore\<close> being the field of a score tuple). A flapper
  is a member object; the damper reads its \<^verbatim>\<open>address\<close> only. A damped member is
  recorded as \<^verbatim>\<open>{timestamp: Date.now()}\<close>.
\<close>

record ringpopMember =
  address :: address
  memberDampScore :: int

type_synonym flapper = ringpopMember

record dampedEntry =
  timestamp :: int

text \<open>
  The timers module (\<^verbatim>\<open>opts.timers\<close>): \<^verbatim>\<open>setTimeout\<close> hands out a fresh handle
  and remembers which callback it is to run, \<^verbatim>\<open>clearTimeout\<close> forgets a handle
  (and does nothing for \<^verbatim>\<open>null\<close>). The damper arms two kinds of timeout.
\<close>

datatype timeout_callback = DampTimerTimeout | ExpirationTimeout

record timer_state =
  nextHandle :: nat
  scheduled :: "(nat \<times> timeout_callback) list"

definition setTimeout :: "timeout_callback \<Rightarrow> timer_state \<Rightarrow> nat \<times> timer_state" where
  "setTimeout cb ts =
     (nextHandle ts,
      ts\<lparr>nextHandle := Suc (nextHandle ts), scheduled := scheduled ts @ [(nextHandle ts, cb)]\<rparr>)"

definition clearTimeout :: "nat option \<Rightarrow> timer_state \<Rightarrow> timer_state" where
  "clearTimeout handle ts =
     (case handle of
        None \<Rightarrow> ts
      | Some h \<Rightarrow> ts\<lparr>scheduled := filter (\<lambda>(h', cb). h' \<noteq> h) (scheduled ts)\<rparr>)"

text \<open>
  The fields of a \<^verbatim>\<open>Damper\<close>, the state of its timers module, and what it has told
  its collaborators: the addresses passed to \<^verbatim>\<open>membership.makeDamped\<close> and the
  \<^verbatim>\<open>undampedMembers\<close> lists (\<^verbatim>\<open>{member, timeDamped}\<close>) it has logged.
\<close>

record damper =
  flappers :: "(address \<times> flapper) list"
  dampTimer :: "nat option"
  isDampTimerEnabled :: bool
  dampedMembers :: "(address \<times> dampedEntry) list"
  dampedMemberExpirationTimer :: "nat option"
  timers :: timer_state
  makeDampedCalls :: "address list"
  undampedReports :: "(address \<times> int) list list"

text \<open>The constructor.\<close>

definition Damper :: damper where
  "Damper =
     \<lparr>flappers = [], dampTimer = None, isDampTimerEnabled = False, dampedMembers = [],
      dampedMemberExpirationTimer = None, timers = \<lparr>nextHandle = 0, scheduled = []\<rparr>,
      makeDampedCalls = [], undampedReports = []\<rparr>"

subsection \<open>Operations\<close>

text \<open>
  The methods \<^verbatim>\<open>_getFlapperAddrs\<close>, \<^verbatim>\<open>_getFlapperCount\<close>, \<^verbatim>\<open>_startDampTimer\<close>,
  \<^verbatim>\<open>_stopDampTimer\<close>, \<^verbatim>\<open>_dampMember\<close> and \<^verbatim>\<open>_expireDampedMembers\<close> are written
  without the leading underscore.
\<close>

definition getFlapperAddrs :: "damper \<Rightarrow> address list" where
  "getFlapperAddrs d = map fst (flappers d)"

definition getFlapperCount :: "damper \<Rightarrow> int" where
  "getFlapperCount d = int (length (map fst (flappers d)))"

text \<open>
  \<^verbatim>\<open>_startDampTimer\<close>: returns when the timer is enabled already; otherwise sets the
  flag and calls \<^verbatim>\<open>schedule\<close>, which (the flag being set) arms the timeout.
\<close>

definition startDampTimer :: "damper \<Rightarrow> damper" where
  "startDampTimer d =
     (if isDampTimerEnabled d then d
      else (let d1 = d\<lparr>isDampTimerEnabled := True\<rparr>;
                (h, ts) = setTimeout DampTimerTimeout (timers d1)
            in d1\<lparr>dampTimer := Some h, timers := ts\<rparr>))"

definition stopDampTimer :: "damper \<Rightarrow> damper" where
  "stopDampTimer d =
     (if \<not> isDampTimerEnabled d then d
      else d\<lparr>timers := clearTimeout (dampTimer d) (timers d),
             dampTimer := None, isDampTimerEnabled := False\<rparr>)"

definition addFlapper :: "flapper \<Rightarrow> damper \<Rightarrow> damper" where
  "addFlapper f d =
     (if map_of (dampedMembers d) (address f) \<noteq> None then d
      else if map_of (flappers d) (address f) \<noteq> None then d
      else (let d1 = d\<lparr>flappers := AList.update (address f) f (flappers d)\<rparr>
            in if getFlapperCount d1 = 1 then startDampTimer d1 else d1))"

text \<open>
  \<^verbatim>\<open>removeFlapper\<close> takes a flapper or a raw address:
  \<^verbatim>\<open>var address = flapper.address || flapper\<close>. A string has no \<^verbatim>\<open>address\<close>
  property, so a raw address is its own key; a flapper whose address is the empty
  string (falsy) is used as the key itself, which as a property name reads
  \<^verbatim>\<open>[object Object]\<close>.
\<close>

datatype flapper_arg = Flapper flapper | Address address

definition flapperKey :: "flapper_arg \<Rightarrow> address" where
  "flapperKey arg =
     (case arg of
        Flapper f \<Rightarrow> (if address f = [] then ''[object Object]'' else address f)
      | Address a \<Rightarrow> a)"

definition removeFlapper :: "flapper_arg \<Rightarrow> damper \<Rightarrow> damper" where
  "removeFlapper arg d =
     (let addr = flapperKey arg
      in if map_of (flappers d) addr = None then d
         else (let d1 = d\<lparr>flappers := AList.delete addr (flappers d)\<rparr>
               in if getFlapperCount d1 = 0 then stopDampTimer d1 else d1))"

definition scheduleExpiration :: "damper \<Rightarrow> damper" where
  "scheduleExpiration d =
     (let (h, ts) = setTimeout ExpirationTimeout (timers d)
      in d\<lparr>dampedMemberExpirationTimer := Some h, timers := ts\<rparr>)"

text \<open>\<^verbatim>\<open>_dampMember\<close>; \<open>now\<close> is what \<^verbatim>\<open>Date.now()\<close> returns.\<close>

definition dampMember :: "address \<Rightarrow> int \<Rightarrow> damper \<Rightarrow> damper" where
  "dampMember memberAddr now d =
     (let d1 = d\<lparr>makeDampedCalls := makeDampedCalls d @ [memberAddr]\<rparr>;
          d2 = removeFlapper (Address memberAddr) d1;
          d3 = d2\<lparr>dampedMembers :=
                    AList.update memberAddr \<lparr>timestamp = now\<rparr> (dampedMembers d2)\<rparr>
      in if dampedMemberExpirationTimer d3 = None then scheduleExpiration d3 else d3)"

text \<open>
  The scan of \<^verbatim>\<open>_expireDampedMembers\<close> over \<^verbatim>\<open>keys = Object.keys(this.dampedMembers)\<close>.
  \<^verbatim>\<open>Date.now()\<close> is read once in every iteration: \<open>clock i\<close> is the reading in
  iteration \<open>i\<close>. Reading \<^verbatim>\<open>timestamp\<close> of a key that has no entry would throw a
  \<^verbatim>\<open>TypeError\<close>.
\<close>

datatype js_error = TypeError

fun expireLoop ::
  "int \<Rightarrow> (nat \<Rightarrow> int) \<Rightarrow> nat \<Rightarrow> address list \<Rightarrow> (address \<times> dampedEntry) list \<Rightarrow>
   (address \<times> int) list \<Rightarrow> js_error + ((address \<times> dampedEntry) list \<times> (address \<times> int) list)" where
  "expireLoop suppressDuration clock i [] dm undampedMembers = Inr (dm, undampedMembers)"
| "expireLoop suppressDuration clock i (key # keys) dm undampedMembers =
     (case map_of dm key of
        None \<Rightarrow> Inl TypeError
      | Some memberDamping \<Rightarrow>
          (let dampedDuration = clock i - timestamp memberDamping
           in if suppressDuration \<le> dampedDuration
              then expireLoop suppressDuration clock (Suc i) keys (AList.delete key dm)
                     (undampedMembers @ [(key, dampedDuration)])
              else expireLoop suppressDuration clock (Suc i) keys dm undampedMembers))"

text \<open>
  The test that guards the cancellation of the expiration timer is
  \<^verbatim>\<open>Object.keys(this.dampedMembers) === 0\<close>: strict equality of an Array and a Number,
  which is false whatever the array holds.
\<close>

definition strictEquals_Array_Number :: "address list \<Rightarrow> int \<Rightarrow> bool" where
  "strictEquals_Array_Number keys n = False"

definition expireDampedMembers :: "config \<Rightarrow> (nat \<Rightarrow> int) \<Rightarrow> damper \<Rightarrow> js_error + damper" where
  "expireDampedMembers cfg clock d =
     (case expireLoop (dampScoringSuppressDuration cfg) clock 0
             (map fst (dampedMembers d)) (dampedMembers d) [] of
        Inl e \<Rightarrow> Inl e
      | Inr (dm, undampedMembers) \<Rightarrow>
          (let d1 = d\<lparr>dampedMembers := dm\<rparr>;
               d2 = (if 0 < length undampedMembers
                     then d1\<lparr>undampedReports := undampedReports d1 @ [undampedMembers]\<rparr>
                     else d1)
           in Inr (if strictEquals_Array_Number (map fst (dampedMembers d2)) 0
                   then d2\<lparr>timers := clearTimeout (dampedMemberExpirationTimer d2) (timers d2),
                           dampedMemberExpirationTimer := None\<rparr>
                   else d2)))"

text \<open>Sequences of operations; a thrown error ends the sequence.\<close>

datatype damper_op =
    AddFlapper flapper
  | RemoveFlapper flapper_arg
  | DampMember address int
  | ExpireDampedMembers "nat \<Rightarrow> int"

fun applyOp :: "config \<Rightarrow> damper_op \<Rightarrow> damper \<Rightarrow> js_error + damper" where
  "applyOp cfg (AddFlapper f) d = Inr (addFlapper f d)"
| "applyOp cfg (RemoveFlapper arg) d = Inr (removeFlapper arg d)"
| "applyOp cfg (DampMember memberAddr now) d = Inr (dampMember memberAddr now d)"
| "applyOp cfg (ExpireDampedMembers clock) d = expireDampedMembers cfg clock d"

fun applyOps :: "config \<Rightarrow> damper_op list \<Rightarrow> damper \<Rightarrow> js_error + damper" where
  "applyOps cfg [] d = Inr d"
| "applyOps cfg (x # xs) d =
     (case applyOp cfg x d of Inl e \<Rightarrow> Inl e | Inr d' \<Rightarrow> applyOps cfg xs d')"

definition flapperSet :: "damper \<Rightarrow> address set" where
  "flapperSet d = fst ` set (flappers d)"

definition dampedSet :: "damper \<Rightarrow> address set" where
  "dampedSet d = fst ` set (dampedMembers d)"

text \<open>
  What a scan leaves and what it reports, read off the entries in key order: the entry
  scanned in iteration \<open>i\<close> goes when \<open>clock i - timestamp\<close> has reached the
  suppress duration.
\<close>

fun survivors ::
  "int \<Rightarrow> (nat \<Rightarrow> int) \<Rightarrow> nat \<Rightarrow> (address \<times> dampedEntry) list \<Rightarrow> (address \<times> dampedEntry) list" where
  "survivors sd clock i [] = []"
| "survivors sd clock i ((k, e) # xs) =
     (if sd \<le> clock i - timestamp e then survivors sd clock (Suc i) xs
      else (k, e) # survivors sd clock (Suc i) xs)"

fun expired ::
  "int \<Rightarrow> (nat \<Rightarrow> int) \<Rightarrow> nat \<Rightarrow> (address \<times> dampedEntry) list \<Rightarrow> (address \<times> int) list" where
  "expired sd clock i [] = []"
| "expired sd clock i ((k, e) # xs) =
     (if sd \<le> clock i - timestamp e
      then (k, clock i - timestamp e) # expired sd clock (Suc i) xs
      else expired sd clock (Suc i) xs)"

text \<open>The invariant of the bookkeeping: no address is both a flapper and damped.\<close>

definition damperInv :: "damper \<Rightarrow> bool" where
  "damperInv d \<longleftrightarrow>
     distinct (map fst (dampedMembers d)) \<and> flapperSet d \<inter> dampedSet d = {}"

subsection \<open>The expiration scan\<close>

lemma expireLoop_scan:
  "distinct (map fst (pre @ xs)) \<Longrightarrow>
     expireLoop sd clock i (map fst xs) (pre @ xs) und
       = Inr (pre @ survivors sd clock i xs, und @ expired sd clock i xs)"
proof (induction xs arbitrary: pre i und)
  case Nil
  show ?case by simp
next
  case (Cons x xs)
  obtain k e where x: "x = (k, e)" by (cases x)
  have kpre: "k \<notin> fst ` set pre" and kxs: "k \<notin> fst ` set xs"
    using Cons.prems x by auto
  have look: "map_of (pre @ x # xs) k = Some e"
    using kpre x by (simp add: map_add_Some_iff map_of_eq_None_iff)
  show ?case
  proof (cases "sd \<le> clock i - timestamp e")
    case True
    have "AList.delete k pre = pre" and "AList.delete k xs = xs"
      using kpre kxs by simp_all
    then have del: "AList.delete k (pre @ x # xs) = pre @ xs"
      using x by (simp add: AList.delete_eq)
    have "distinct (map fst (pre @ xs))" using Cons.prems by simp
    from Cons.IH [OF this] show ?thesis
      using look True del x by simp
  next
    case False
    have "distinct (map fst ((pre @ [x]) @ xs))" using Cons.prems by simp
    from Cons.IH [OF this] show ?thesis
      using look False x by simp
  qed
qed

lemma survivors_subset: "set (survivors sd clock i xs) \<subseteq> set xs"
proof (induction xs arbitrary: i)
  case Nil
  show ?case by simp
next
  case (Cons x xs)
  obtain k e where x: "x = (k, e)" by (cases x)
  show ?case
    using Cons.IH [of "Suc i"] x by auto
qed

lemma survivors_keys_distinct:
  "distinct (map fst xs) \<Longrightarrow> distinct (map fst (survivors sd clock i xs))"
proof (induction xs arbitrary: i)
  case Nil
  show ?case by simp
next
  case (Cons x xs)
  obtain k e where x: "x = (k, e)" by (cases x)
  have "k \<notin> fst ` set (survivors sd clock (Suc i) xs)"
    using Cons.prems x survivors_subset [of sd clock "Suc i" xs] by auto
  then show ?case
    using Cons x by simp
qed

text \<open>
  With one clock reading for the whole scan, the entries that stay are those younger
  than the suppress duration.
\<close>

lemma survivors_one_reading:
  "survivors sd (\<lambda>i. now) i xs = filter (\<lambda>(k, e). now - timestamp e < sd) xs"
  by (induction xs arbitrary: i) auto

text \<open>
  A tick on a damper whose damped members have distinct keys (as the keys of an object
  are) returns; it removes exactly the entries that have reached the suppress duration,
  reports them, and leaves the expiration timer and the timers module as they were.
\<close>

lemma expireDampedMembers_scan:
  assumes "distinct (map fst (dampedMembers d))"
  shows "\<exists>d'. expireDampedMembers cfg clock d = Inr d' \<and>
           dampedMembers d' = survivors (dampScoringSuppressDuration cfg) clock 0 (dampedMembers d) \<and>
           flappers d' = flappers d \<and>
           dampedMemberExpirationTimer d' = dampedMemberExpirationTimer d \<and>
           timers d' = timers d"
proof -
  have "distinct (map fst ([] @ dampedMembers d))"
    using assms by simp
  from expireLoop_scan [OF this, of "dampScoringSuppressDuration cfg" clock 0 "[]"]
  show ?thesis
    by (simp add: expireDampedMembers_def Let_def strictEquals_Array_Number_def)
qed

subsection \<open>The invariant\<close>

lemma startDampTimer_sets [simp]:
  "flappers (startDampTimer d) = flappers d"
  "dampedMembers (startDampTimer d) = dampedMembers d"
  by (simp_all add: startDampTimer_def Let_def split: prod.splits)

lemma stopDampTimer_sets [simp]:
  "flappers (stopDampTimer d) = flappers d"
  "dampedMembers (stopDampTimer d) = dampedMembers d"
  by (simp_all add: stopDampTimer_def)

lemma Damper_inv: "damperInv Damper"
  by (simp add: damperInv_def Damper_def flapperSet_def dampedSet_def)

lemma addFlapper_inv: "damperInv d \<Longrightarrow> damperInv (addFlapper f d)"
  by (auto simp: damperInv_def addFlapper_def Let_def flapperSet_def dampedSet_def
        dom_update map_of_eq_None_iff)

lemma removeFlapper_sets:
  "flapperSet (removeFlapper arg d) \<subseteq> flapperSet d"
  "flapperKey arg \<notin> flapperSet (removeFlapper arg d)"
  "dampedMembers (removeFlapper arg d) = dampedMembers d"
  using dom_delete_subset [of "flapperKey arg" "flappers d"]
    delete_notin_dom [of "flapperKey arg" "flappers d"]
  by (auto simp: removeFlapper_def Let_def flapperSet_def map_of_eq_None_iff)

lemma removeFlapper_inv: "damperInv d \<Longrightarrow> damperInv (removeFlapper arg d)"
  using removeFlapper_sets [of arg d] by (auto simp: damperInv_def dampedSet_def)

lemma dampMember_inv: "damperInv d \<Longrightarrow> damperInv (dampMember a now d)"
  using removeFlapper_sets [of "Address a" "d\<lparr>makeDampedCalls := makeDampedCalls d @ [a]\<rparr>"]
  by (auto simp: damperInv_def dampMember_def Let_def scheduleExpiration_def flapperSet_def
        dampedSet_def dom_update distinct_update flapperKey_def split: prod.splits)

lemma expireDampedMembers_inv:
  assumes "damperInv d"
  shows "\<exists>d'. expireDampedMembers cfg clock d = Inr d' \<and> damperInv d'"
proof -
  have dd: "distinct (map fst (dampedMembers d))"
    using assms by (simp add: damperInv_def)
  from expireDampedMembers_scan [OF dd, of cfg clock] obtain d' where
    r: "expireDampedMembers cfg clock d = Inr d'"
    and dm: "dampedMembers d' = survivors (dampScoringSuppressDuration cfg) clock 0 (dampedMembers d)"
    and fl: "flappers d' = flappers d"
    by blast
  have "dampedSet d' \<subseteq> dampedSet d"
    using dm survivors_subset [of "dampScoringSuppressDuration cfg" clock 0 "dampedMembers d"]
    by (auto simp: dampedSet_def)
  moreover have "distinct (map fst (dampedMembers d'))"
    using dm dd by (simp add: survivors_keys_distinct)
  ultimately have "damperInv d'"
    using assms fl by (auto simp: damperInv_def flapperSet_def)
  with r show ?thesis by blast
qed

lemma applyOp_inv: "damperInv d \<Longrightarrow> \<exists>d'. applyOp cfg x d = Inr d' \<and> damperInv d'"
  by (cases x)
     (simp_all add: addFlapper_inv removeFlapper_inv dampMember_inv expireDampedMembers_inv)

lemma applyOps_inv: "damperInv d \<Longrightarrow> \<exists>d'. applyOps cfg xs d = Inr d' \<and> damperInv d'"
proof (induction xs arbitrary: d)
  case Nil
  then show ?case by simp
next
  case (Cons x xs)
  from applyOp_inv [OF Cons.prems, of cfg x] obtain d1 where
    "applyOp cfg x d = Inr d1" and "damperInv d1"
    by blast
  then show ?case
    using Cons.IH [of d1] by simp
qed

subsection \<open>Claims about the bookkeeping\<close>

text \<open>
  C3. For every sequence of damper operations (\<^verbatim>\<open>addFlapper\<close>, \<^verbatim>\<open>removeFlapper\<close>,
  \<^verbatim>\<open>_dampMember\<close>, \<^verbatim>\<open>_expireDampedMembers\<close>) from the freshly constructed damper, and
  after every operation of it (after each prefix of the sequence), the operations have
  all returned and the set of flapper addresses and the set of damped addresses are
  disjoint.
\<close>

theorem flappers_and_damped_disjoint:
  "\<forall>n. \<exists>d. applyOps cfg (take n ops) Damper = Inr d \<and> flapperSet d \<inter> dampedSet d = {}"
proof
  fix n
  from applyOps_inv [OF Damper_inv, of cfg "take n ops"]
  show "\<exists>d. applyOps cfg (take n ops) Damper = Inr d \<and> flapperSet d \<inter> dampedSet d = {}"
    by (auto simp: damperInv_def)
qed

text \<open>
  C9. For every damper state and flapper \<open>f\<close>, a second \<^verbatim>\<open>addFlapper(f)\<close> changes
  nothing: the state after two calls is the state after one, and with it the flapper
  set. When the address of \<open>f\<close> is already damped or already a flapper, a call leaves
  the whole state as it was: both sets, and the damp timer with its flag.
\<close>

theorem addFlapper_idempotent:
  "addFlapper f (addFlapper f d) = addFlapper f d
   \<and> flappers (addFlapper f (addFlapper f d)) = flappers (addFlapper f d)
   \<and> (address f \<in> dampedSet d \<or> address f \<in> flapperSet d \<longrightarrow>
        addFlapper f d = d
        \<and> flappers (addFlapper f d) = flappers d
        \<and> dampedMembers (addFlapper f d) = dampedMembers d
        \<and> dampTimer (addFlapper f d) = dampTimer d
        \<and> isDampTimerEnabled (addFlapper f d) = isDampTimerEnabled d)"
proof -
  have twice: "addFlapper f (addFlapper f d) = addFlapper f d"
    by (simp add: addFlapper_def Let_def startDampTimer_def update_conv' split: prod.splits)
  have known: "address f \<in> dampedSet d \<or> address f \<in> flapperSet d \<Longrightarrow> addFlapper f d = d"
    by (auto simp: addFlapper_def dampedSet_def flapperSet_def map_of_eq_None_iff)
  show ?thesis
    using twice known by simp
qed

text \<open>A flapper that was added before: the second call returns the state it was given.\<close>

theorem addFlapper_idempotent_witness:
  "address \<lparr>address = ''10.0.0.1:3000'', memberDampScore = 0\<rparr>
     \<in> flapperSet (addFlapper \<lparr>address = ''10.0.0.1:3000'', memberDampScore = 0\<rparr> Damper)
   \<and> addFlapper \<lparr>address = ''10.0.0.1:3000'', memberDampScore = 0\<rparr> (addFlapper \<lparr>address = ''10.0.0.1:3000'', memberDampScore = 0\<rparr> Damper)
     = addFlapper \<lparr>address = ''10.0.0.1:3000'', memberDampScore = 0\<rparr> Damper
   \<and> flappers (addFlapper \<lparr>address = ''10.0.0.1:3000'', memberDampScore = 0\<rparr> Damper)
     = [(''10.0.0.1:3000'', \<lparr>address = ''10.0.0.1:3000'', memberDampScore = 0\<rparr>)]
   \<and> dampTimer (addFlapper \<lparr>address = ''10.0.0.1:3000'', memberDampScore = 0\<rparr> Damper) = Some 0"
proof -
  have m: "address \<lparr>address = ''10.0.0.1:3000'', memberDampScore = 0\<rparr>
     \<in> flapperSet (addFlapper \<lparr>address = ''10.0.0.1:3000'', memberDampScore = 0\<rparr> Damper)"
    by (simp add: addFlapper_def Damper_def flapperSet_def getFlapperCount_def
          startDampTimer_def setTimeout_def)
  have v: "flappers (addFlapper \<lparr>address = ''10.0.0.1:3000'', memberDampScore = 0\<rparr> Damper)
             = [(''10.0.0.1:3000'', \<lparr>address = ''10.0.0.1:3000'', memberDampScore = 0\<rparr>)]
           \<and> dampTimer (addFlapper \<lparr>address = ''10.0.0.1:3000'', memberDampScore = 0\<rparr> Damper) = Some 0"
    by (simp add: addFlapper_def Damper_def getFlapperCount_def startDampTimer_def
          setTimeout_def)
  show ?thesis
    using m v addFlapper_idempotent [of "\<lparr>address = ''10.0.0.1:3000'', memberDampScore = 0\<rparr>"
        "addFlapper \<lparr>address = ''10.0.0.1:3000'', memberDampScore = 0\<rparr> Damper"]
    by blast
qed

text \<open>
  C4. At an expiration tick an entry is removed if and only if it has reached the
  suppress duration (lemma \<open>expireDampedMembers_scan\<close>). The timer, however, is not
  cancelled when the damped set is left empty. Here \<open>y\<close> is damped at time 0 and the
  tick comes at time 1100, with a suppress duration of 1000: \<open>y\<close> is removed and
  reported, the damped set is empty, and the expiration timer (handle 0) is still set
  and still scheduled.
\<close>

theorem expireDampedMembers_keeps_timer:
  "expireDampedMembers \<lparr>dampScoringSuppressLimit = 100, dampScoringSuppressDuration = 1000\<rparr>
      (\<lambda>i. 1100) (dampMember ''y'' 0 Damper)
   = Inr \<lparr>flappers = [], dampTimer = None, isDampTimerEnabled = False, dampedMembers = [],
      dampedMemberExpirationTimer = Some 0,
      timers = \<lparr>nextHandle = 1, scheduled = [(0, ExpirationTimeout)]\<rparr>,
      makeDampedCalls = [''y''], undampedReports = [[(''y'', 1100)]]\<rparr>"
  by (simp add: expireDampedMembers_def dampMember_def Damper_def removeFlapper_def
        flapperKey_def scheduleExpiration_def setTimeout_def strictEquals_Array_Number_def
        Let_def)

section \<open>The damp-req fan-out\<close>

subsection \<open>\<^verbatim>\<open>_fanoutDampReqs\<close> and its per-request callback\<close>

text \<open>
  A damp-req ends with \<^verbatim>\<open>onDampReq(err, res)\<close>: with an error of the transport
  (\<^verbatim>\<open>err\<close> truthy) or with a response.
\<close>

type_synonym rpc_error = string

datatype damp_req_reply = ReplyError rpc_error | ReplyResponse dampReqResponse

text \<open>
  The \<^verbatim>\<open>UnattainableRValError\<close> of type \<^verbatim>\<open>ringpop.damping.unattainable-rval\<close>, with
  the properties it is created with: \<^verbatim>\<open>flappers\<close>, \<^verbatim>\<open>rVal\<close> and \<^verbatim>\<open>errors\<close>.
\<close>

record unattainableRValError =
  errorType :: string
  errorFlappers :: "address list"
  errorRVal :: int
  errorErrors :: "rpc_error list"

definition UnattainableRValError :: "address list \<Rightarrow> int \<Rightarrow> rpc_error list \<Rightarrow> unattainableRValError" where
  "UnattainableRValError flapperAddrs rVal errs =
     \<lparr>errorType = ''ringpop.damping.unattainable-rval'', errorFlappers = flapperAddrs,
      errorRVal = rVal, errorErrors = errs\<rparr>"

text \<open>
  What the continuation is called with: \<^verbatim>\<open>callback(null, results)\<close> or
  \<^verbatim>\<open>callback(UnattainableRValError(...))\<close>.
\<close>

datatype callback_args =
    CallbackResults "dampReqResponse list"
  | CallbackError unattainableRValError

text \<open>
  The variables that the callbacks of one fan-out share (\<^verbatim>\<open>callback\<close>, here whether it
  still is a function; \<^verbatim>\<open>numPendingReqs\<close>, \<^verbatim>\<open>errors\<close>, \<^verbatim>\<open>results\<close>), and the calls
  the fan-out has made: the damp-reqs sent, the continuation's invocations, and the
  change lists passed to \<^verbatim>\<open>membership.update\<close>.
\<close>

record fanout =
  callbackIsFunction :: bool
  numPendingReqs :: int
  errors :: "rpc_error list"
  results :: "dampReqResponse list"
  dampReqsSent :: "address list"
  callbackCalls :: "callback_args list"
  membershipUpdates :: "change list list"

text \<open>
  \<^verbatim>\<open>_fanoutDampReqs\<close> sends one damp-req to every selected member and initialises the
  shared variables. The replies come through the event loop, after this function has
  returned.
\<close>

definition fanoutDampReqs :: "address list \<Rightarrow> ringpopMember list \<Rightarrow> int \<Rightarrow> fanout" where
  "fanoutDampReqs flapperAddrs dampReqMembers rVal =
     \<lparr>callbackIsFunction = True,
      numPendingReqs = int (length dampReqMembers),
      errors = [],
      results = [],
      dampReqsSent = map address dampReqMembers,
      callbackCalls = [],
      membershipUpdates = []\<rparr>"

text \<open>The callback \<^verbatim>\<open>onDampReq\<close> that \<^verbatim>\<open>dampReqCallback(addr)\<close> returns.\<close>

definition onDampReq ::
  "address list \<Rightarrow> int \<Rightarrow> address \<Rightarrow> damp_req_reply \<Rightarrow> fanout \<Rightarrow> fanout" where
  "onDampReq flapperAddrs rVal addr reply st =
     (if \<not> callbackIsFunction st then st
      else
        (let st1 = st\<lparr>numPendingReqs := numPendingReqs st - 1\<rparr>;
             st2 = (case reply of
                      ReplyError err \<Rightarrow> st1\<lparr>errors := errors st1 @ [err]\<rparr>
                    | ReplyResponse res \<Rightarrow>
                        (let st1' = (case changes res of
                                       Some cs \<Rightarrow> st1\<lparr>membershipUpdates := membershipUpdates st1 @ [cs]\<rparr>
                                     | None \<Rightarrow> st1)
                         in st1'\<lparr>results := results st1' @ [res\<lparr>dampReqAddr := Some addr\<rparr>]\<rparr>))
         in if rVal \<le> int (length (results st2))
            then st2\<lparr>callbackCalls := callbackCalls st2 @ [CallbackResults (results st2)],
                    callbackIsFunction := False\<rparr>
            else if numPendingReqs st2 < rVal - int (length (results st2))
            then st2\<lparr>callbackCalls := callbackCalls st2 @
                      [CallbackError (UnattainableRValError flapperAddrs rVal (errors st2))],
                    callbackIsFunction := False\<rparr>
            else st2))"

text \<open>
  A run of a fan-out: the replies \<open>(addr, reply)\<close> in the order in which the event
  loop delivers them.
\<close>

definition deliver ::
  "address list \<Rightarrow> int \<Rightarrow> fanout \<Rightarrow> (address \<times> damp_req_reply) list \<Rightarrow> fanout" where
  "deliver flapperAddrs rVal st replies =
     foldl (\<lambda>st (addr, reply). onDampReq flapperAddrs rVal addr reply st) st replies"

definition fanoutRun ::
  "address list \<Rightarrow> ringpopMember list \<Rightarrow> int \<Rightarrow> (address \<times> damp_req_reply) list \<Rightarrow> fanout" where
  "fanoutRun flapperAddrs dampReqMembers rVal replies =
     deliver flapperAddrs rVal (fanoutDampReqs flapperAddrs dampReqMembers rVal) replies"

text \<open>
  The successes and the errors among a list of replies, in arrival order; a success is
  tagged with the address of the member that sent it.
\<close>

fun successes :: "(address \<times> damp_req_reply) list \<Rightarrow> dampReqResponse list" where
  "successes [] = []"
| "successes ((addr, ReplyResponse res) # replies) =
     res\<lparr>dampReqAddr := Some addr\<rparr> # successes replies"
| "successes ((addr, ReplyError err) # replies) = successes replies"

fun failures :: "(address \<times> damp_req_reply) list \<Rightarrow> rpc_error list" where
  "failures [] = []"
| "failures ((addr, ReplyResponse res) # replies) = failures replies"
| "failures ((addr, ReplyError err) # replies) = err # failures replies"

text \<open>
  After the replies \<open>replies\<close> of \<open>n\<close> requests: the quorum \<open>rVal\<close> is reached, or
  it is out of reach, fewer requests being pending than successes are missing.
\<close>

definition quorumReached :: "int \<Rightarrow> (address \<times> damp_req_reply) list \<Rightarrow> bool" where
  "quorumReached rVal replies \<longleftrightarrow> rVal \<le> int (length (successes replies))"

definition quorumUnattainable :: "nat \<Rightarrow> int \<Rightarrow> (address \<times> damp_req_reply) list \<Rightarrow> bool" where
  "quorumUnattainable n rVal replies \<longleftrightarrow>
     int n - int (length replies) < rVal - int (length (successes replies))"

text \<open>
  The shared variables while the continuation is still pending, after the replies
  \<open>replies\<close>: every reply has been counted and recorded.
\<close>

definition pendingState ::
  "address list \<Rightarrow> ringpopMember list \<Rightarrow> int \<Rightarrow> (address \<times> damp_req_reply) list \<Rightarrow> fanout \<Rightarrow> bool" where
  "pendingState F M r replies st \<longleftrightarrow>
     callbackIsFunction st \<and>
     numPendingReqs st = int (length M) - int (length replies) \<and>
     errors st = failures replies \<and> results st = successes replies \<and>
     callbackCalls st = []"

subsection \<open>Runs of a fan-out\<close>

lemma successes_snoc:
  "successes (replies @ [(addr, reply)]) =
     successes replies @ (case reply of ReplyResponse res \<Rightarrow> [res\<lparr>dampReqAddr := Some addr\<rparr>]
                                       | ReplyError err \<Rightarrow> [])"
  by (induction replies rule: successes.induct) (simp_all split: damp_req_reply.splits)

lemma failures_snoc:
  "failures (replies @ [(addr, reply)]) =
     failures replies @ (case reply of ReplyResponse res \<Rightarrow> [] | ReplyError err \<Rightarrow> [err])"
  by (induction replies rule: failures.induct) (simp_all split: damp_req_reply.splits)

lemma fanoutRun_snoc:
  "fanoutRun F M r (replies @ [(addr, reply)]) = onDampReq F r addr reply (fanoutRun F M r replies)"
  by (simp add: fanoutRun_def deliver_def)

lemma onDampReq_consumed:
  "\<not> callbackIsFunction st \<Longrightarrow> onDampReq F r addr reply st = st"
  by (simp add: onDampReq_def)

lemma deliver_consumed:
  "\<not> callbackIsFunction st \<Longrightarrow> deliver F r st replies = st"
  by (induction replies) (simp_all add: deliver_def onDampReq_consumed split: prod.splits)

lemma fanoutRun_append:
  "fanoutRun F M r (xs @ ys) = deliver F r (fanoutRun F M r xs) ys"
  by (simp add: fanoutRun_def deliver_def)

lemma fanoutRun_frozen:
  "\<not> callbackIsFunction (fanoutRun F M r xs) \<Longrightarrow> fanoutRun F M r (xs @ ys) = fanoutRun F M r xs"
  by (simp add: fanoutRun_append deliver_consumed)


lemma onDampReq_step:
  assumes "pendingState F M r replies st"
  shows "onDampReq F r addr reply st =
     (let replies' = replies @ [(addr, reply)];
          st2 = st\<lparr>numPendingReqs := int (length M) - int (length replies'),
                   errors := failures replies', results := successes replies',
                   membershipUpdates := membershipUpdates st @
                      (case reply of ReplyResponse res \<Rightarrow> (case changes res of Some cs \<Rightarrow> [cs] | None \<Rightarrow> [])
                                   | ReplyError err \<Rightarrow> [])\<rparr>
      in if quorumReached r replies'
         then st2\<lparr>callbackCalls := [CallbackResults (successes replies')], callbackIsFunction := False\<rparr>
         else if quorumUnattainable (length M) r replies'
         then st2\<lparr>callbackCalls := [CallbackError (UnattainableRValError F r (failures replies'))],
                 callbackIsFunction := False\<rparr>
         else st2)"
  using assms
  by (cases reply)
     (auto simp: pendingState_def onDampReq_def Let_def successes_snoc failures_snoc
        quorumReached_def quorumUnattainable_def split: option.splits)

lemma fanoutRun_pending:
  "callbackIsFunction (fanoutRun F M r replies) \<Longrightarrow>
     pendingState F M r replies (fanoutRun F M r replies) \<and>
     (replies \<noteq> [] \<longrightarrow> \<not> quorumReached r replies \<and> \<not> quorumUnattainable (length M) r replies)"
proof (induction replies rule: rev_induct)
  case Nil
  show ?case by (simp add: fanoutRun_def deliver_def fanoutDampReqs_def pendingState_def)
next
  case (snoc x xs)
  obtain addr reply where x: "x = (addr, reply)" by (cases x)
  have live: "callbackIsFunction (fanoutRun F M r xs)"
  proof (rule ccontr)
    assume n: "\<not> callbackIsFunction (fanoutRun F M r xs)"
    then have "fanoutRun F M r (xs @ [x]) = fanoutRun F M r xs"
      by (rule fanoutRun_frozen)
    with snoc.prems n show False by simp
  qed
  then have p: "pendingState F M r xs (fanoutRun F M r xs)"
    using snoc.IH by simp
  show ?case
    using snoc.prems p unfolding x fanoutRun_snoc onDampReq_step [OF p]
    by (auto simp: Let_def pendingState_def split: if_splits)
qed

lemma fanoutRun_decided:
  "\<not> callbackIsFunction (fanoutRun F M r replies) \<Longrightarrow>
     \<exists>k < length replies. callbackIsFunction (fanoutRun F M r (take k replies)) \<and>
        fanoutRun F M r (take (Suc k) replies) = fanoutRun F M r replies"
proof (induction replies rule: rev_induct)
  case Nil
  then show ?case by (simp add: fanoutRun_def deliver_def fanoutDampReqs_def)
next
  case (snoc x xs)
  show ?case
  proof (cases "callbackIsFunction (fanoutRun F M r xs)")
    case True
    then show ?thesis by (intro exI [of _ "length xs"]) simp
  next
    case False
    from snoc.IH [OF this] obtain k where k: "k < length xs"
      "callbackIsFunction (fanoutRun F M r (take k xs))"
      "fanoutRun F M r (take (Suc k) xs) = fanoutRun F M r xs" by blast
    then show ?thesis
      using fanoutRun_frozen [OF False, of "[x]"] by (intro exI [of _ k]) simp
  qed
qed

text \<open>One more reply to a fan-out whose continuation is pending.\<close>

lemma fanoutRun_step:
  assumes "callbackIsFunction (fanoutRun F M r xs)"
  shows "callbackCalls (fanoutRun F M r (xs @ [x])) =
     (if quorumReached r (xs @ [x]) then [CallbackResults (successes (xs @ [x]))]
      else if quorumUnattainable (length M) r (xs @ [x])
      then [CallbackError (UnattainableRValError F r (failures (xs @ [x])))]
      else [])"
    and "callbackIsFunction (fanoutRun F M r (xs @ [x])) \<longleftrightarrow>
      \<not> quorumReached r (xs @ [x]) \<and> \<not> quorumUnattainable (length M) r (xs @ [x])"
proof -
  obtain addr reply where x: "x = (addr, reply)" by (cases x)
  have p: "pendingState F M r xs (fanoutRun F M r xs)"
    using fanoutRun_pending [OF assms] by simp
  show "callbackCalls (fanoutRun F M r (xs @ [x])) =
     (if quorumReached r (xs @ [x]) then [CallbackResults (successes (xs @ [x]))]
      else if quorumUnattainable (length M) r (xs @ [x])
      then [CallbackError (UnattainableRValError F r (failures (xs @ [x])))]
      else [])"
    using p unfolding x fanoutRun_snoc onDampReq_step [OF p]
    by (simp add: Let_def pendingState_def)
  show "callbackIsFunction (fanoutRun F M r (xs @ [x])) \<longleftrightarrow>
      \<not> quorumReached r (xs @ [x]) \<and> \<not> quorumUnattainable (length M) r (xs @ [x])"
    using p unfolding x fanoutRun_snoc onDampReq_step [OF p]
    by (simp add: Let_def pendingState_def)
qed


lemma successes_snoc_length:
  "length (successes (xs @ [x])) \<le> Suc (length (successes xs))"
  by (cases x) (simp add: successes_snoc split: damp_req_reply.splits)

lemma fanoutRun_outcome:
  "(callbackIsFunction (fanoutRun F M r xs) \<and> callbackCalls (fanoutRun F M r xs) = [])
   \<or> (\<not> callbackIsFunction (fanoutRun F M r xs) \<and>
       (\<exists>k < length xs. callbackIsFunction (fanoutRun F M r (take k xs)) \<and>
          (if quorumReached r (take (Suc k) xs)
           then callbackCalls (fanoutRun F M r xs) = [CallbackResults (successes (take (Suc k) xs))]
           else quorumUnattainable (length M) r (take (Suc k) xs) \<and>
                callbackCalls (fanoutRun F M r xs) =
                  [CallbackError (UnattainableRValError F r (failures (take (Suc k) xs)))])))"
proof (cases "callbackIsFunction (fanoutRun F M r xs)")
  case True
  then show ?thesis
    using fanoutRun_pending [OF True] by (simp add: pendingState_def)
next
  case False
  from fanoutRun_decided [OF False] obtain k where k: "k < length xs"
    and live: "callbackIsFunction (fanoutRun F M r (take k xs))"
    and eq: "fanoutRun F M r (take (Suc k) xs) = fanoutRun F M r xs"
    by blast
  have t: "take (Suc k) xs = take k xs @ [xs ! k]"
    using k by (simp add: take_Suc_conv_app_nth)
  have "if quorumReached r (take (Suc k) xs)
        then callbackCalls (fanoutRun F M r xs) = [CallbackResults (successes (take (Suc k) xs))]
        else quorumUnattainable (length M) r (take (Suc k) xs) \<and>
             callbackCalls (fanoutRun F M r xs) =
               [CallbackError (UnattainableRValError F r (failures (take (Suc k) xs)))]"
    using fanoutRun_step [OF live, of "xs ! k"] False unfolding t [symmetric] eq
    by (simp split: if_splits)
  with False k live show ?thesis by blast
qed

text \<open>
  A reply to a pending fan-out that had sent a request does not both reach the quorum
  and put it out of reach.
\<close>

lemma quorum_exclusive:
  assumes live: "callbackIsFunction (fanoutRun F M r xs)" and m: "M \<noteq> []"
    and un: "quorumUnattainable (length M) r (xs @ [x])"
  shows "\<not> quorumReached r (xs @ [x])"
proof
  assume re: "quorumReached r (xs @ [x])"
  have n: "1 \<le> int (length M)"
    using m by (cases M) simp_all
  show False
  proof (cases "xs = []")
    case True
    then show False
      using re un n successes_snoc_length [of "[]" x]
      by (simp add: quorumReached_def quorumUnattainable_def)
  next
    case False
    with fanoutRun_pending [OF live]
    have "\<not> quorumReached r xs" and "\<not> quorumUnattainable (length M) r xs"
      by simp_all
    then show False
      using re un successes_snoc_length [of xs x]
      by (simp add: quorumReached_def quorumUnattainable_def)
  qed
qed

subsection \<open>Claims about the fan-out\<close>

text \<open>
  C2. For a fan-out over \<open>n\<close> observers with a quorum \<open>1 \<le> rVal \<le> n\<close>, when
  every damp-req has invoked its callback exactly once (the replies are those of the
  members the requests went to, in any order), the continuation has been invoked exactly
  once: with the list of the successes, \<open>rVal\<close> of them and in arrival order, or with
  an \<^verbatim>\<open>UnattainableRValError\<close>. At no point of the run has it been invoked twice.
\<close>

theorem fanout_callback_exactly_once:
  assumes r1: "1 \<le> rVal" and rn: "rVal \<le> int (length dampReqMembers)"
    and once: "mset (map fst replies) = mset (map address dampReqMembers)"
  shows "(\<exists>args. callbackCalls (fanoutRun flapperAddrs dampReqMembers rVal replies) = [args] \<and>
            (case args of
               CallbackResults rs \<Rightarrow>
                 int (length rs) = rVal \<and> (\<exists>k \<le> length replies. rs = successes (take k replies))
             | CallbackError e \<Rightarrow> errorType e = ''ringpop.damping.unattainable-rval''))
         \<and> (\<forall>k. length (callbackCalls (fanoutRun flapperAddrs dampReqMembers rVal (take k replies))) \<le> 1)"
proof (intro conjI allI)
  let ?run = "fanoutRun flapperAddrs dampReqMembers rVal"
  have len: "length replies = length dampReqMembers"
    using once by (metis length_map mset_eq_length)
  have dead: "\<not> callbackIsFunction (?run replies)"
  proof
    assume live: "callbackIsFunction (?run replies)"
    have "replies \<noteq> []" using len r1 rn by auto
    with fanoutRun_pending [OF live]
    have "\<not> quorumReached rVal replies" "\<not> quorumUnattainable (length dampReqMembers) rVal replies"
      by simp_all
    then show False
      by (simp add: quorumReached_def quorumUnattainable_def len)
  qed
  with fanoutRun_outcome [of flapperAddrs dampReqMembers rVal replies]
  obtain k where k: "k < length replies"
    and live: "callbackIsFunction (?run (take k replies))"
    and out: "if quorumReached rVal (take (Suc k) replies)
           then callbackCalls (?run replies) = [CallbackResults (successes (take (Suc k) replies))]
           else quorumUnattainable (length dampReqMembers) rVal (take (Suc k) replies) \<and>
                callbackCalls (?run replies) =
                  [CallbackError (UnattainableRValError flapperAddrs rVal (failures (take (Suc k) replies)))]"
    by blast
  have t: "take (Suc k) replies = take k replies @ [replies ! k]"
    using k by (simp add: take_Suc_conv_app_nth)
  have before: "int (length (successes (take k replies))) < rVal"
  proof (cases "k = 0")
    case True
    then show ?thesis using r1 by simp
  next
    case False
    then have "take k replies \<noteq> []" using k by auto
    with fanoutRun_pending [OF live] show ?thesis
      by (simp add: quorumReached_def)
  qed
  show "\<exists>args. callbackCalls (?run replies) = [args] \<and>
            (case args of
               CallbackResults rs \<Rightarrow>
                 int (length rs) = rVal \<and> (\<exists>k \<le> length replies. rs = successes (take k replies))
             | CallbackError e \<Rightarrow> errorType e = ''ringpop.damping.unattainable-rval'')"
  proof (cases "quorumReached rVal (take (Suc k) replies)")
    case True
    have "int (length (successes (take (Suc k) replies))) = rVal"
      using True before successes_snoc_length [of "take k replies" "replies ! k"]
      unfolding t quorumReached_def by linarith
    moreover have "Suc k \<le> length replies" using k by simp
    ultimately show ?thesis
      using out True by auto
  next
    case False
    then show ?thesis
      using out by (simp add: UnattainableRValError_def)
  qed
next
  fix k
  show "length (callbackCalls (fanoutRun flapperAddrs dampReqMembers rVal (take k replies))) \<le> 1"
    using fanoutRun_outcome [of flapperAddrs dampReqMembers rVal "take k replies"]
    by (auto split: if_splits)
qed

text \<open>
  Three observers and a quorum of two: one error, then two successes.
\<close>

theorem fanout_callback_exactly_once_witness:
  "(1::int) \<le> 2
   \<and> 2 \<le> int (length [\<lparr>address = ''a'', memberDampScore = 0\<rparr>, \<lparr>address = ''b'', memberDampScore = 0\<rparr>,
                       \<lparr>address = ''c'', memberDampScore = 0\<rparr>])
   \<and> mset (map fst
        [(''b'', ReplyError ''timeout''),
         (''a'', ReplyResponse \<lparr>scores = Some [\<lparr>member = ''x'', dampScore = 150\<rparr>], changes = None, dampReqAddr = None\<rparr>),
         (''c'', ReplyResponse \<lparr>scores = Some [\<lparr>member = ''x'', dampScore = 120\<rparr>], changes = None, dampReqAddr = None\<rparr>)])
     = mset (map address
        [\<lparr>address = ''a'', memberDampScore = 0\<rparr>, \<lparr>address = ''b'', memberDampScore = 0\<rparr>,
         \<lparr>address = ''c'', memberDampScore = 0\<rparr>])
   \<and> callbackCalls (fanoutRun [''x'']
        [\<lparr>address = ''a'', memberDampScore = 0\<rparr>, \<lparr>address = ''b'', memberDampScore = 0\<rparr>,
         \<lparr>address = ''c'', memberDampScore = 0\<rparr>] 2
        [(''b'', ReplyError ''timeout''),
         (''a'', ReplyResponse \<lparr>scores = Some [\<lparr>member = ''x'', dampScore = 150\<rparr>], changes = None, dampReqAddr = None\<rparr>),
         (''c'', ReplyResponse \<lparr>scores = Some [\<lparr>member = ''x'', dampScore = 120\<rparr>], changes = None, dampReqAddr = None\<rparr>)])
     = [CallbackResults
         [\<lparr>scores = Some [\<lparr>member = ''x'', dampScore = 150\<rparr>], changes = None, dampReqAddr = Some ''a''\<rparr>,
          \<lparr>scores = Some [\<lparr>member = ''x'', dampScore = 120\<rparr>], changes = None, dampReqAddr = Some ''c''\<rparr>]]"
proof -
  let ?M = "[\<lparr>address = ''a'', memberDampScore = 0\<rparr>, \<lparr>address = ''b'', memberDampScore = 0\<rparr>,
             \<lparr>address = ''c'', memberDampScore = 0\<rparr>]"
  let ?replies = "[(''b'', ReplyError ''timeout''),
         (''a'', ReplyResponse \<lparr>scores = Some [\<lparr>member = ''x'', dampScore = 150\<rparr>], changes = None, dampReqAddr = None\<rparr>),
         (''c'', ReplyResponse \<lparr>scores = Some [\<lparr>member = ''x'', dampScore = 120\<rparr>], changes = None, dampReqAddr = None\<rparr>)]"
  have h1: "(1::int) \<le> 2" by simp
  have h2: "2 \<le> int (length ?M)" by simp
  have h3: "mset (map fst ?replies) = mset (map address ?M)"
    by (simp add: add_mset_commute)
  have v: "callbackCalls (fanoutRun [''x''] ?M 2 ?replies)
     = [CallbackResults
         [\<lparr>scores = Some [\<lparr>member = ''x'', dampScore = 150\<rparr>], changes = None, dampReqAddr = Some ''a''\<rparr>,
          \<lparr>scores = Some [\<lparr>member = ''x'', dampScore = 120\<rparr>], changes = None, dampReqAddr = Some ''c''\<rparr>]]"
    by (simp add: fanoutRun_def deliver_def fanoutDampReqs_def onDampReq_def Let_def)
  show ?thesis
    using h1 h2 h3 v fanout_callback_exactly_once [OF h1 h2 h3, of "[''x'']"]
    by blast
qed

text \<open>
  C6. For a fan-out over \<open>n\<close> observers and a quorum \<open>rVal\<close> (replies come only
  when requests were sent), the continuation is invoked with an
  \<^verbatim>\<open>UnattainableRValError\<close> if and only if, after some reply that found the
  continuation still pending, the number of requests still pending, \<open>n\<close> less the
  replies so far, is less than \<open>rVal\<close> minus the number of successes so far. The
  error carries the flapper list, \<open>rVal\<close>, and exactly the errors received up to and
  including that reply.
\<close>

theorem unattainable_error_iff:
  assumes sent: "dampReqMembers = [] \<longrightarrow> replies = []"
  shows "((\<exists>e. CallbackError e \<in> set (callbackCalls (fanoutRun flapperAddrs dampReqMembers rVal replies)))
          \<longleftrightarrow> (\<exists>k < length replies.
                 callbackIsFunction (fanoutRun flapperAddrs dampReqMembers rVal (take k replies)) \<and>
                 quorumUnattainable (length dampReqMembers) rVal (take (Suc k) replies)))
         \<and> (\<forall>e. CallbackError e \<in> set (callbackCalls (fanoutRun flapperAddrs dampReqMembers rVal replies))
               \<longrightarrow> (\<exists>k < length replies.
                 callbackIsFunction (fanoutRun flapperAddrs dampReqMembers rVal (take k replies)) \<and>
                 quorumUnattainable (length dampReqMembers) rVal (take (Suc k) replies) \<and>
                 errorFlappers e = flapperAddrs \<and> errorRVal e = rVal \<and>
                 errorErrors e = failures (take (Suc k) replies)))"
proof -
  let ?run = "fanoutRun flapperAddrs dampReqMembers rVal"
  let ?n = "length dampReqMembers"
  have fwd: "\<exists>k < length replies. callbackIsFunction (?run (take k replies)) \<and>
                 quorumUnattainable ?n rVal (take (Suc k) replies) \<and>
                 e = UnattainableRValError flapperAddrs rVal (failures (take (Suc k) replies))"
    if "CallbackError e \<in> set (callbackCalls (?run replies))" for e
    using that fanoutRun_outcome [of flapperAddrs dampReqMembers rVal replies]
    by (auto split: if_splits)
  have bwd: "\<exists>e. CallbackError e \<in> set (callbackCalls (?run replies))"
    if k: "k < length replies" and live: "callbackIsFunction (?run (take k replies))"
      and un: "quorumUnattainable ?n rVal (take (Suc k) replies)" for k
  proof -
    have t: "take (Suc k) replies = take k replies @ [replies ! k]"
      using k by (simp add: take_Suc_conv_app_nth)
    have "dampReqMembers \<noteq> []" using sent k by auto
    then have nr: "\<not> quorumReached rVal (take (Suc k) replies)"
      using quorum_exclusive [OF live _ un [unfolded t]] t by simp
    have calls: "callbackCalls (?run (take (Suc k) replies)) =
        [CallbackError (UnattainableRValError flapperAddrs rVal (failures (take (Suc k) replies)))]"
      and dead: "\<not> callbackIsFunction (?run (take (Suc k) replies))"
      using fanoutRun_step [OF live, of "replies ! k"] nr un unfolding t [symmetric] by simp_all
    have "?run (take (Suc k) replies @ drop (Suc k) replies) = ?run (take (Suc k) replies)"
      using dead by (rule fanoutRun_frozen)
    then have "?run replies = ?run (take (Suc k) replies)" by simp
    with calls show ?thesis by simp
  qed
  show ?thesis
  proof (intro conjI allI impI iffI)
    assume "\<exists>e. CallbackError e \<in> set (callbackCalls (?run replies))"
    then show "\<exists>k < length replies. callbackIsFunction (?run (take k replies)) \<and>
                 quorumUnattainable ?n rVal (take (Suc k) replies)"
      using fwd by blast
  next
    assume "\<exists>k < length replies. callbackIsFunction (?run (take k replies)) \<and>
                 quorumUnattainable ?n rVal (take (Suc k) replies)"
    then show "\<exists>e. CallbackError e \<in> set (callbackCalls (?run replies))"
      using bwd by blast
  next
    fix e
    assume "CallbackError e \<in> set (callbackCalls (?run replies))"
    from fwd [OF this] show "\<exists>k < length replies.
                 callbackIsFunction (?run (take k replies)) \<and>
                 quorumUnattainable ?n rVal (take (Suc k) replies) \<and>
                 errorFlappers e = flapperAddrs \<and> errorRVal e = rVal \<and>
                 errorErrors e = failures (take (Suc k) replies)"
      by (auto simp: UnattainableRValError_def)
  qed
qed

text \<open>
  Three observers and a quorum of three: the first reply is an error, two requests are
  pending and three successes are missing.
\<close>

theorem unattainable_error_iff_witness:
  "[\<lparr>address = ''a'', memberDampScore = 0\<rparr>, \<lparr>address = ''b'', memberDampScore = 0\<rparr>,
    \<lparr>address = ''c'', memberDampScore = 0\<rparr>] \<noteq> []
   \<and> callbackIsFunction (fanoutRun [''x'']
        [\<lparr>address = ''a'', memberDampScore = 0\<rparr>, \<lparr>address = ''b'', memberDampScore = 0\<rparr>,
         \<lparr>address = ''c'', memberDampScore = 0\<rparr>] 3 (take 0 [(''a'', ReplyError ''timeout'')]))
   \<and> quorumUnattainable 3 3 (take (Suc 0) [(''a'', ReplyError ''timeout'')])
   \<and> (\<exists>e. CallbackError e \<in> set (callbackCalls (fanoutRun [''x'']
        [\<lparr>address = ''a'', memberDampScore = 0\<rparr>, \<lparr>address = ''b'', memberDampScore = 0\<rparr>,
         \<lparr>address = ''c'', memberDampScore = 0\<rparr>] 3 [(''a'', ReplyError ''timeout'')])))
   \<and> callbackCalls (fanoutRun [''x'']
        [\<lparr>address = ''a'', memberDampScore = 0\<rparr>, \<lparr>address = ''b'', memberDampScore = 0\<rparr>,
         \<lparr>address = ''c'', memberDampScore = 0\<rparr>] 3 [(''a'', ReplyError ''timeout'')])
     = [CallbackError \<lparr>errorType = ''ringpop.damping.unattainable-rval'', errorFlappers = [''x''],
          errorRVal = 3, errorErrors = [''timeout'']\<rparr>]"
proof -
  let ?M = "[\<lparr>address = ''a'', memberDampScore = 0\<rparr>, \<lparr>address = ''b'', memberDampScore = 0\<rparr>,
             \<lparr>address = ''c'', memberDampScore = 0\<rparr>]"
  let ?replies = "[(''a'', ReplyError ''timeout'')]"
  have h: "?M = [] \<longrightarrow> ?replies = []" by simp
  have live: "callbackIsFunction (fanoutRun [''x''] ?M 3 (take 0 ?replies))"
    by (simp add: fanoutRun_def deliver_def fanoutDampReqs_def)
  have un: "quorumUnattainable 3 3 (take (Suc 0) ?replies)"
    by (simp add: quorumUnattainable_def)
  have k: "\<exists>k < length ?replies. callbackIsFunction (fanoutRun [''x''] ?M 3 (take k ?replies)) \<and>
             quorumUnattainable (length ?M) 3 (take (Suc k) ?replies)"
    using live un by (intro exI [of _ 0]) (simp add: eval_nat_numeral)
  have e: "\<exists>e. CallbackError e \<in> set (callbackCalls (fanoutRun [''x''] ?M 3 ?replies))"
    using unattainable_error_iff [OF h, of "[''x'']" 3] k by blast
  have v: "callbackCalls (fanoutRun [''x''] ?M 3 ?replies)
     = [CallbackError \<lparr>errorType = ''ringpop.damping.unattainable-rval'', errorFlappers = [''x''],
          errorRVal = 3, errorErrors = [''timeout'']\<rparr>]"
    by (simp add: fanoutRun_def deliver_def fanoutDampReqs_def onDampReq_def Let_def
          UnattainableRValError_def)
  show ?thesis
    using live un e v by simp
qed

text \<open>
  C5 has the changes of a late successful response still applied to the membership.
  They are not. Two observers and a quorum of one: the first response consumes the
  continuation; the second, a success that carries the changes \<open>c1\<close>, comes late,
  and nothing is passed to \<^verbatim>\<open>membership.update\<close>.
\<close>

theorem late_changes_not_applied:
  "\<not> callbackIsFunction (fanoutRun [''x'']
        [\<lparr>address = ''a'', memberDampScore = 0\<rparr>, \<lparr>address = ''b'', memberDampScore = 0\<rparr>] 1
        [(''a'', ReplyResponse \<lparr>scores = Some [], changes = None, dampReqAddr = None\<rparr>)])
   \<and> changes \<lparr>scores = Some [], changes = Some [''c1''], dampReqAddr = None\<rparr> = Some [''c1'']
   \<and> membershipUpdates (fanoutRun [''x'']
        [\<lparr>address = ''a'', memberDampScore = 0\<rparr>, \<lparr>address = ''b'', memberDampScore = 0\<rparr>] 1
        [(''a'', ReplyResponse \<lparr>scores = Some [], changes = None, dampReqAddr = None\<rparr>),
         (''b'', ReplyResponse \<lparr>scores = Some [], changes = Some [''c1''], dampReqAddr = None\<rparr>)]) = []"
  by (simp add: fanoutRun_def deliver_def fanoutDampReqs_def onDampReq_def Let_def)

text \<open>
  C5, as the code has it. Once the continuation has been consumed, \<^verbatim>\<open>onDampReq\<close>
  returns at its guard: a late reply is discarded whole and the changes it carries are
  not passed to \<^verbatim>\<open>membership.update\<close>. The changes of a response are applied when it
  arrives while the continuation is still pending.
\<close>

theorem late_reply_discarded:
  "(\<not> callbackIsFunction st \<longrightarrow>
      onDampReq flapperAddrs rVal addr reply st = st \<and>
      membershipUpdates (onDampReq flapperAddrs rVal addr reply st) = membershipUpdates st)
   \<and> (callbackIsFunction st \<and> changes res = Some cs \<longrightarrow>
      membershipUpdates (onDampReq flapperAddrs rVal addr (ReplyResponse res) st)
        = membershipUpdates st @ [cs])"
  by (simp add: onDampReq_def Let_def)

text \<open>
  The same late response, and the same response to a fan-out that is still pending.
\<close>

theorem late_reply_discarded_witness:
  "\<not> callbackIsFunction (fanoutRun [''x'']
        [\<lparr>address = ''a'', memberDampScore = 0\<rparr>, \<lparr>address = ''b'', memberDampScore = 0\<rparr>] 1
        [(''a'', ReplyResponse \<lparr>scores = Some [], changes = None, dampReqAddr = None\<rparr>)])
   \<and> onDampReq [''x''] 1 ''b''
        (ReplyResponse \<lparr>scores = Some [], changes = Some [''c1''], dampReqAddr = None\<rparr>)
        (fanoutRun [''x'']
          [\<lparr>address = ''a'', memberDampScore = 0\<rparr>, \<lparr>address = ''b'', memberDampScore = 0\<rparr>] 1
          [(''a'', ReplyResponse \<lparr>scores = Some [], changes = None, dampReqAddr = None\<rparr>)])
     = fanoutRun [''x'']
          [\<lparr>address = ''a'', memberDampScore = 0\<rparr>, \<lparr>address = ''b'', memberDampScore = 0\<rparr>] 1
          [(''a'', ReplyResponse \<lparr>scores = Some [], changes = None, dampReqAddr = None\<rparr>)]
   \<and> callbackIsFunction (fanoutDampReqs [''x'']
        [\<lparr>address = ''a'', memberDampScore = 0\<rparr>, \<lparr>address = ''b'', memberDampScore = 0\<rparr>] 2)
   \<and> changes \<lparr>scores = Some [], changes = Some [''c1''], dampReqAddr = None\<rparr> = Some [''c1'']
   \<and> membershipUpdates (onDampReq [''x''] 2 ''b''
        (ReplyResponse \<lparr>scores = Some [], changes = Some [''c1''], dampReqAddr = None\<rparr>)
        (fanoutDampReqs [''x'']
          [\<lparr>address = ''a'', memberDampScore = 0\<rparr>, \<lparr>address = ''b'', memberDampScore = 0\<rparr>] 2))
     = [[''c1'']]"
proof -
  let ?M = "[\<lparr>address = ''a'', memberDampScore = 0\<rparr>, \<lparr>address = ''b'', memberDampScore = 0\<rparr>]"
  let ?late = "\<lparr>scores = Some [], changes = Some [''c1''], dampReqAddr = None\<rparr>"
  let ?st = "fanoutRun [''x''] ?M 1
          [(''a'', ReplyResponse \<lparr>scores = Some [], changes = None, dampReqAddr = None\<rparr>)]"
  have consumed: "\<not> callbackIsFunction ?st"
    by (simp add: fanoutRun_def deliver_def fanoutDampReqs_def onDampReq_def Let_def)
  have pending: "callbackIsFunction (fanoutDampReqs [''x''] ?M 2)"
    by (simp add: fanoutDampReqs_def)
  have ch: "changes ?late = Some [''c1'']" by simp
  have none: "membershipUpdates (fanoutDampReqs [''x''] ?M 2) = []"
    by (simp add: fanoutDampReqs_def)
  show ?thesis
    using consumed pending ch none
      late_reply_discarded [of ?st "[''x'']" 1 "''b''" "ReplyResponse ?late" ?late "[''c1'']"]
      late_reply_discarded [of "fanoutDampReqs [''x''] ?M 2" "[''x'']" 2 "''b''" "ReplyResponse ?late" ?late "[''c1'']"]
    by simp
qed

section \<open>The receiving side: the damp-req handler\<close>

subsection \<open>\<^verbatim>\<open>handleDampReq\<close>\<close>

text \<open>
  The body of a damp-req as \<^verbatim>\<open>safeParse(arg3.toString())\<close> returns it: nothing
  (\<open>None\<close>) when there is no parsed body, or an object with its properties. A property
  is an array of addresses, or some other value.
\<close>

datatype json_value = JArray "address list" | JOther

type_synonym json_object = "(string \<times> json_value) list"

text \<open>
  What the handler passes to the callback of the transport: an error, namely the one of
  \<^verbatim>\<open>validateRequest\<close> or \<^verbatim>\<open>new Error('Bad request: flappers is not an Array')\<close>,
  or the \<^verbatim>\<open>DampReqResponse\<close> made of the scores (its constructor belongs to
  \<^verbatim>\<open>request_response.js\<close>; the response stands here as the scores it is given).
  Reading a property of a body that is not there would throw.
\<close>

datatype transport_error = RequestInvalid | FlappersNotAnArray

datatype handler_reply =
    TransportError transport_error
  | Response "score list"
  | Thrown js_error

text \<open>
  Modelled from the spec: \<^verbatim>\<open>validateRequest\<close> of \<^verbatim>\<open>request_response.js\<close>, which is not
  among the sources. The specification has a bad or missing \<^verbatim>\<open>flappers\<close> field
  rejected with a transport-level error: a request without a body, or whose body lacks
  one of the required fields, is answered with an error through the callback (the
  \<open>Some\<close> case, \<^verbatim>\<open>validateRequest\<close> returning false); any other request passes
  (\<open>None\<close>, the callback is not called and \<^verbatim>\<open>validateRequest\<close> returns true).
\<close>

definition validateRequest :: "json_object option \<Rightarrow> string list \<Rightarrow> transport_error option" where
  "validateRequest body required =
     (case body of
        None \<Rightarrow> Some RequestInvalid
      | Some obj \<Rightarrow>
          (if list_all (\<lambda>field. map_of obj field \<noteq> None) required then None
           else Some RequestInvalid))"

text \<open>
  The function that \<^verbatim>\<open>flappers.reduce\<close> folds over the flappers, from \<^verbatim>\<open>[]\<close>.
  \<^verbatim>\<open>membership.findMemberByAddress\<close> is the lookup in the local membership table.
\<close>

definition reduceStep ::
  "(address \<Rightarrow> ringpopMember option) \<Rightarrow> score list \<Rightarrow> address \<Rightarrow> score list" where
  "reduceStep findMemberByAddress result flapper =
     (case findMemberByAddress flapper of
        None \<Rightarrow> result
      | Some m \<Rightarrow> result @ [\<lparr>member = address m, dampScore = memberDampScore m\<rparr>])"

definition handleDampReq ::
  "(address \<Rightarrow> ringpopMember option) \<Rightarrow> json_object option \<Rightarrow> handler_reply" where
  "handleDampReq findMemberByAddress body =
     (case validateRequest body [''flappers''] of
        Some e \<Rightarrow> TransportError e
      | None \<Rightarrow>
          (case body of
             None \<Rightarrow> Thrown TypeError
           | Some obj \<Rightarrow>
               (case map_of obj ''flappers'' of
                  Some (JArray flapperList) \<Rightarrow>
                    Response (foldl (reduceStep findMemberByAddress) [] flapperList)
                | _ \<Rightarrow> TransportError FlappersNotAnArray)))"

text \<open>The members that the flappers of a request are found as, in the request's order.\<close>

fun foundMembers :: "(address \<Rightarrow> ringpopMember option) \<Rightarrow> address list \<Rightarrow> ringpopMember list" where
  "foundMembers findMemberByAddress [] = []"
| "foundMembers findMemberByAddress (flapper # rest) =
     (case findMemberByAddress flapper of
        None \<Rightarrow> foundMembers findMemberByAddress rest
      | Some m \<Rightarrow> m # foundMembers findMemberByAddress rest)"

definition scoreOf :: "ringpopMember \<Rightarrow> score" where
  "scoreOf m = \<lparr>member = address m, dampScore = memberDampScore m\<rparr>"

subsection \<open>The scores of a request\<close>

lemma reduce_scores:
  "foldl (reduceStep lookup) acc fl = acc @ map scoreOf (foundMembers lookup fl)"
  by (induction fl arbitrary: acc) (simp_all add: reduceStep_def scoreOf_def split: option.splits)

lemma foundMembers_length:
  "length (foundMembers lookup fl) = length (filter (\<lambda>f. lookup f \<noteq> None) fl)"
  by (induction fl) (simp_all split: option.splits)

text \<open>
  C8. For a damp-req whose body has a \<^verbatim>\<open>flappers\<close> array, the handler replies with one
  \<^verbatim>\<open>{member, dampScore}\<close> tuple for each flapper that is found in the local membership
  table (address and damp score of the member found), and none for a flapper that is not
  found. When there is no body, or no \<^verbatim>\<open>flappers\<close> field, or the field is not an array,
  the handler replies with a transport error and no scores.
\<close>

theorem handleDampReq_scores:
  "(map_of obj ''flappers'' = Some (JArray fl) \<longrightarrow>
      handleDampReq lookup (Some obj) = Response (map scoreOf (foundMembers lookup fl))
      \<and> length (map scoreOf (foundMembers lookup fl)) = length (filter (\<lambda>f. lookup f \<noteq> None) fl))
   \<and> ((map_of obj ''flappers'' = None \<or> map_of obj ''flappers'' = Some JOther) \<longrightarrow>
        (\<exists>e. handleDampReq lookup (Some obj) = TransportError e))
   \<and> (\<exists>e. handleDampReq lookup None = TransportError e)"
  by (simp add: handleDampReq_def validateRequest_def reduce_scores foundMembers_length)

text \<open>
  A request about \<open>x\<close> and \<open>y\<close> to a node that knows \<open>x\<close> only, and requests
  without a \<^verbatim>\<open>flappers\<close> array.
\<close>

theorem handleDampReq_scores_witness:
  "map_of [(''flappers'', JArray [''x'', ''y''])] ''flappers'' = Some (JArray [''x'', ''y''])
   \<and> handleDampReq
        (\<lambda>a. if a = ''x'' then Some \<lparr>address = ''x'', memberDampScore = 150\<rparr> else None)
        (Some [(''flappers'', JArray [''x'', ''y''])])
      = Response [\<lparr>member = ''x'', dampScore = 150\<rparr>]
   \<and> map_of [(''flappers'', JOther)] ''flappers'' = Some JOther
   \<and> handleDampReq
        (\<lambda>a. if a = ''x'' then Some \<lparr>address = ''x'', memberDampScore = 150\<rparr> else None)
        (Some [(''flappers'', JOther)])
      = TransportError FlappersNotAnArray
   \<and> map_of ([] :: json_object) ''flappers'' = None
   \<and> handleDampReq
        (\<lambda>a. if a = ''x'' then Some \<lparr>address = ''x'', memberDampScore = 150\<rparr> else None)
        (Some [])
      = TransportError RequestInvalid"
proof -
  let ?find = "\<lambda>a. if a = ''x'' then Some \<lparr>address = ''x'', memberDampScore = 150\<rparr> else None"
  have a: "map_of [(''flappers'', JArray [''x'', ''y''])] ''flappers'' = Some (JArray [''x'', ''y''])"
    by simp
  have f: "map scoreOf (foundMembers ?find [''x'', ''y'']) = [\<lparr>member = ''x'', dampScore = 150\<rparr>]"
    by (simp add: scoreOf_def)
  have r: "handleDampReq ?find (Some [(''flappers'', JArray [''x'', ''y''])])
        = Response [\<lparr>member = ''x'', dampScore = 150\<rparr>]"
    using handleDampReq_scores [of "[(''flappers'', JArray [''x'', ''y''])]" "[''x'', ''y'']" ?find]
      a f by simp
  have "\<exists>e. handleDampReq ?find (Some [(''flappers'', JOther)]) = TransportError e"
    using handleDampReq_scores [of "[(''flappers'', JOther)]" "[]" ?find] by simp
  then have o: "handleDampReq ?find (Some [(''flappers'', JOther)]) = TransportError FlappersNotAnArray"
    by (simp add: handleDampReq_def validateRequest_def)
  have "\<exists>e. handleDampReq ?find (Some []) = TransportError e"
    using handleDampReq_scores [of "[]" "[]" ?find] by simp
  then have m: "handleDampReq ?find (Some []) = TransportError RequestInvalid"
    by (simp add: handleDampReq_def validateRequest_def)
  show ?thesis
    using a r o m by simp
qed

end
